theory Spec2Isabelle
  imports Complex_Main "HOL-Library.Log_Nat"
begin

section \<open>Python numbers and strings\<close>

text \<open>
  The program computes with Python \<open>int\<close> (unbounded, modelled by \<open>int\<close>) and Python
  \<open>float\<close> (IEEE-754 binary64). A finite float is modelled by the rational number it
  denotes, and every float operation by the exact operation followed by \<open>fl\<close>, rounding to
  the nearest number with a 53-bit significand, ties to the even significand. The exponent
  range is not modelled: \<open>fl\<close> agrees with binary64 for magnitudes between \<open>2^-1022\<close> and
  \<open>2^1024\<close>, which is far beyond every value the form of the program can produce.
\<close>

datatype error = ZeroDivisionError

definition pow2 :: "int \<Rightarrow> rat" where
  "pow2 i = (if 0 \<le> i then 2 ^ nat i else 1 / 2 ^ nat (- i))"

text \<open>The exponent \<open>e\<close> with \<open>2^e \<le> a < 2^(e+1)\<close>, for \<open>a > 0\<close>.\<close>

definition binade :: "rat \<Rightarrow> int" where
  "binade a = (if 1 \<le> a then bitlen \<lfloor>a\<rfloor> - 1 else - bitlen (\<lceil>1 / a\<rceil> - 1))"

definition round_half_even :: "rat \<Rightarrow> int" where
  "round_half_even m =
     (let f = \<lfloor>m\<rfloor>; d = m - of_int f
      in if d < 1 / 2 then f else if 1 / 2 < d then f + 1 else if even f then f else f + 1)"

definition fl :: "rat \<Rightarrow> rat" where
  "fl x = (if x = 0 then 0
           else let u = pow2 (binade \<bar>x\<bar> - 52)
                in sgn x * of_int (round_half_even (\<bar>x\<bar> / u)) * u)"

text \<open>\<open>float(n)\<close>, as Python converts an \<open>int\<close> operand of a mixed operation.\<close>

definition float_of_int :: "int \<Rightarrow> rat" where
  "float_of_int n = fl (of_int n)"

definition fadd :: "rat \<Rightarrow> rat \<Rightarrow> rat" where
  "fadd a b = fl (a + b)"

definition fsub :: "rat \<Rightarrow> rat \<Rightarrow> rat" where
  "fsub a b = fl (a - b)"

definition fmul :: "rat \<Rightarrow> rat \<Rightarrow> rat" where
  "fmul a b = fl (a * b)"

text \<open>Float division raises \<open>ZeroDivisionError\<close> on a zero divisor.\<close>

definition fdiv :: "rat \<Rightarrow> rat \<Rightarrow> error + rat" where
  "fdiv a b = (if b = 0 then Inl ZeroDivisionError else Inr (fl (a / b)))"

text \<open>\<open>x ** 2\<close> on a float: the square, rounded once.\<close>

definition fpow2 :: "rat \<Rightarrow> rat" where
  "fpow2 x = fl (x * x)"

text \<open>\<open>int(x)\<close> on a float truncates toward zero.\<close>

definition py_int :: "rat \<Rightarrow> int" where
  "py_int x = (if 0 \<le> x then \<lfloor>x\<rfloor> else \<lceil>x\<rceil>)"

text \<open>\<open>str(n)\<close> for an \<open>int\<close>, as an f-string field prints it.\<close>

fun str_nat :: "nat \<Rightarrow> string" where
  "str_nat n =
     (if n < 10 then [''0123456789'' ! n]
      else str_nat (n div 10) @ [''0123456789'' ! (n mod 10)])"

definition str_int :: "int \<Rightarrow> string" where
  "str_int i = (if i < 0 then ''-'' @ str_nat (nat (- i)) else str_nat (nat i))"

text \<open>The format \<open>{x:.2f}\<close>: the value rounded to two decimals, ties to even.\<close>

definition format_2f :: "rat \<Rightarrow> string" where
  "format_2f x =
     (let n = nat (round_half_even (\<bar>x\<bar> * 100))
      in (if x < 0 then ''-'' else '''') @ str_nat (n div 100) @ ''.''
         @ [''0123456789'' ! (n div 10 mod 10), ''0123456789'' ! (n mod 10)])"

section \<open>Helper functions of the program\<close>

definition calculate_bmi :: "int \<Rightarrow> int \<Rightarrow> error + rat" where
  "calculate_bmi weight height_cm =
     (case fdiv (float_of_int height_cm) 100 of
        Inl e \<Rightarrow> Inl e
      | Inr height_m \<Rightarrow> fdiv (float_of_int weight) (fpow2 height_m))"

definition bmi_category :: "rat \<Rightarrow> string" where
  "bmi_category bmi =
     (if bmi < 18.5 then ''Underweight''
      else if 18.5 \<le> bmi \<and> bmi < 25 then ''Normal weight''
      else if 25 \<le> bmi \<and> bmi < 30 then ''Overweight''
      else ''Obese'')"

definition activity_mapping :: "(string \<times> rat) list" where
  "activity_mapping =
     [(''Sedentary (little or no exercise)'', fl 1.2),
      (''Lightly active (light exercise/sports 1-3 days/week)'', fl 1.375),
      (''Moderately active (moderate exercise/sports 3-5 days/week)'', fl 1.55),
      (''Very active (hard exercise/sports 6-7 days/week)'', fl 1.725),
      (''Extra active (very hard exercise or physical job)'', fl 1.9)]"

definition activity_factor :: "string \<Rightarrow> rat" where
  "activity_factor level =
     (case map_of activity_mapping level of Some f \<Rightarrow> f | None \<Rightarrow> fl 1.2)"

definition bmr_mifflin :: "int \<Rightarrow> int \<Rightarrow> int \<Rightarrow> string \<Rightarrow> rat" where
  "bmr_mifflin weight height_cm age gender =
     (if gender = ''Male'' then
        fadd (fsub (fadd (float_of_int (10 * weight)) (fmul 6.25 (float_of_int height_cm)))
                   (float_of_int (5 * age)))
             (float_of_int 5)
      else if gender = ''Female'' then
        fsub (fsub (fadd (float_of_int (10 * weight)) (fmul 6.25 (float_of_int height_cm)))
                   (float_of_int (5 * age)))
             (float_of_int 161)
      else
        let male = fadd (fsub (fadd (float_of_int (10 * weight))
                                    (fmul 6.25 (float_of_int height_cm)))
                              (float_of_int (5 * age)))
                        (float_of_int 5);
            female = fsub (fsub (fadd (float_of_int (10 * weight))
                                      (fmul 6.25 (float_of_int height_cm)))
                                (float_of_int (5 * age)))
                          (float_of_int 161)
        in fl (fadd male female / float_of_int 2))"

definition goal_mapping :: "(string \<times> int) list" where
  "goal_mapping =
     [(''Maintain weight'', 0),
      (''Mild weight loss'', - 250),
      (''Weight loss'', - 500),
      (''Mild weight gain'', 250),
      (''Weight gain'', 500)]"

text \<open>\<open>tdee\<close> is an \<open>int\<close> here, so the sum is an \<open>int\<close> and \<open>int(...)\<close> returns it.\<close>

definition adjust_calorie_for_goal :: "int \<Rightarrow> string \<Rightarrow> int" where
  "adjust_calorie_for_goal tdee goal =
     tdee + (case map_of goal_mapping goal of Some d \<Rightarrow> d | None \<Rightarrow> 0)"

record meal_plan =
  "notes" :: string
  breakfast :: string
  lunch :: string
  snack :: string
  dinner :: string

definition sample_meal_plan :: "int \<Rightarrow> string \<Rightarrow> meal_plan" where
  "sample_meal_plan cal_target category =
     (let b = py_int (fmul (float_of_int cal_target) 0.25);
          l = py_int (fmul (float_of_int cal_target) (fl 0.35));
          s = py_int (fmul (float_of_int cal_target) (fl 0.10));
          d = py_int (fmul (float_of_int cal_target) (fl 0.30))
      in if category = ''Underweight'' then
           \<lparr>notes = ''Focus on calorie-dense nutritious foods: nuts, dairy, healthy oils, and protein.'',
            breakfast = ''Oats with whole milk, banana, and peanut butter (~'' @ str_int (b + 150) @ '' kcal)'',
            lunch = ''Rice/roti + dal + paneer/chicken + veggies (~'' @ str_int (l + 200) @ '' kcal)'',
            snack = ''Nuts & dried fruit or smoothie (~'' @ str_int (s + 150) @ '' kcal)'',
            dinner = ''Rice/roti + lentils + salad + yogurt (~'' @ str_int (d + 150) @ '' kcal)''\<rparr>
         else if category = ''Normal weight'' then
           \<lparr>notes = ''Maintain balanced macros and regular activity.'',
            breakfast = ''Vegetable omelette/tofu scramble + wholegrain toast (~'' @ str_int b @ '' kcal)'',
            lunch = ''Grilled chicken/fish or paneer + salad + brown rice (~'' @ str_int l @ '' kcal)'',
            snack = ''Fruit or yogurt (~'' @ str_int s @ '' kcal)'',
            dinner = ''Light curry + roti + salad (~'' @ str_int d @ '' kcal)''\<rparr>
         else if category = ''Overweight'' then
           \<lparr>notes = ''Reduce refined carbs & added sugars; prioritize protein and fiber.'',
            breakfast = ''Greek yogurt + berries + seeds (~'' @ str_int (b - 100) @ '' kcal)'',
            lunch = ''Grilled protein + large salad + quinoa (~'' @ str_int (l - 100) @ '' kcal)'',
            snack = ''Raw veggies or an apple (~'' @ str_int (s - 50) @ '' kcal)'',
            dinner = ''Steamed fish/beans + veggies (~'' @ str_int (d - 50) @ '' kcal)''\<rparr>
         else
           \<lparr>notes = ''Aim for modest calorie deficit, high fiber, lean proteins. Consult a professional for personalised plan.'',
            breakfast = ''Oatmeal with berries (~'' @ str_int (b - 150) @ '' kcal)'',
            lunch = ''Large salad with lean protein (~'' @ str_int (l - 150) @ '' kcal)'',
            snack = ''Veg sticks or a small fruit (~'' @ str_int (s - 50) @ '' kcal)'',
            dinner = ''Light vegetable soup + lean protein (~'' @ str_int (d - 100) @ '' kcal)''\<rparr>)"

section \<open>The form and the main logic\<close>

text \<open>
  The script is run from the top at every submission. Its module-level variables are the
  fields of \<open>globals\<close>: the six widget values and the variables the \<open>if submit:\<close> block
  assigns. Each statement of the block is a transformer of \<open>globals\<close> that reads the
  variables it names and writes the one it assigns.
\<close>

record globals =
  age :: int
  gender :: string
  height_cm :: int
  weight_kg :: int
  activity :: string
  goal :: string
  bmi :: rat
  category :: string
  bmr :: rat
  tdee :: int
  cal_target :: int
  plan :: meal_plan
  report :: string
  df_plan :: "(string \<times> string) list"

text \<open>The values the widgets offer: the bounds of the number input and the sliders, and
  the options of the select boxes.\<close>

definition gender_options :: "string list" where
  "gender_options = [''Male'', ''Female'', ''Other'']"

definition activity_options :: "string list" where
  "activity_options =
     [''Sedentary (little or no exercise)'',
      ''Lightly active (light exercise/sports 1-3 days/week)'',
      ''Moderately active (moderate exercise/sports 3-5 days/week)'',
      ''Very active (hard exercise/sports 6-7 days/week)'',
      ''Extra active (very hard exercise or physical job)'']"

definition goal_options :: "string list" where
  "goal_options =
     [''Maintain weight'', ''Mild weight loss'', ''Weight loss'', ''Mild weight gain'',
      ''Weight gain'']"

definition form_ranges :: "int \<Rightarrow> string \<Rightarrow> int \<Rightarrow> int \<Rightarrow> string \<Rightarrow> string \<Rightarrow> bool" where
  "form_ranges a gd h w act gl \<longleftrightarrow>
     5 \<le> a \<and> a \<le> 120 \<and> gd \<in> set gender_options \<and> 100 \<le> h \<and> h \<le> 220 \<and>
     30 \<le> w \<and> w \<le> 200 \<and> act \<in> set activity_options \<and> gl \<in> set goal_options"

definition assign_bmi :: "globals \<Rightarrow> error + globals" where
  "assign_bmi g =
     (case calculate_bmi (weight_kg g) (height_cm g) of
        Inl e \<Rightarrow> Inl e
      | Inr v \<Rightarrow> Inr (g\<lparr>bmi := v\<rparr>))"

definition assign_category :: "globals \<Rightarrow> globals" where
  "assign_category g = g\<lparr>category := bmi_category (bmi g)\<rparr>"

definition assign_bmr :: "globals \<Rightarrow> globals" where
  "assign_bmr g = g\<lparr>bmr := bmr_mifflin (weight_kg g) (height_cm g) (age g) (gender g)\<rparr>"

definition assign_tdee :: "globals \<Rightarrow> globals" where
  "assign_tdee g = g\<lparr>tdee := py_int (fmul (bmr g) (activity_factor (activity g)))\<rparr>"

definition assign_cal_target :: "globals \<Rightarrow> globals" where
  "assign_cal_target g = g\<lparr>cal_target := adjust_calorie_for_goal (tdee g) (goal g)\<rparr>"

definition assign_plan :: "globals \<Rightarrow> globals" where
  "assign_plan g = g\<lparr>plan := sample_meal_plan (cal_target g) (category g)\<rparr>"

definition assign_report :: "globals \<Rightarrow> globals" where
  "assign_report g =
     (let g = g\<lparr>report := ''BMI Report\<newline>''\<rparr>;
          g = g\<lparr>report := report g
                @ ''Age: '' @ str_int (age g) @ ''\<newline>Gender: '' @ gender g
                @ ''\<newline>Height (cm): '' @ str_int (height_cm g)
                @ ''\<newline>Weight (kg): '' @ str_int (weight_kg g) @ ''\<newline>\<newline>''\<rparr>;
          g = g\<lparr>report := report g
                @ ''BMI: '' @ format_2f (bmi g) @ '' ('' @ category g @ '')\<newline>BMR: ''
                @ str_int (py_int (bmr g)) @ '' kcal/day\<newline>TDEE: '' @ str_int (tdee g)
                @ '' kcal/day\<newline>Calorie target: '' @ str_int (cal_target g)
                @ '' kcal/day\<newline>\<newline>''\<rparr>;
          g = g\<lparr>report := report g @ ''Sample Meal Plan:\<newline>''\<rparr>;
          g = g\<lparr>report := report g @ ''Breakfast: '' @ breakfast (plan g) @ ''\<newline>''\<rparr>;
          g = g\<lparr>report := report g @ ''Lunch: '' @ lunch (plan g) @ ''\<newline>''\<rparr>;
          g = g\<lparr>report := report g @ ''Snack: '' @ snack (plan g) @ ''\<newline>''\<rparr>;
          g = g\<lparr>report := report g @ ''Dinner: '' @ dinner (plan g) @ ''\<newline>''\<rparr>
      in g)"

text \<open>The rows of the data frame that is written out as CSV.\<close>

definition assign_df_plan :: "globals \<Rightarrow> globals" where
  "assign_df_plan g =
     g\<lparr>df_plan :=
         [(''Breakfast'', breakfast (plan g)), (''Lunch'', lunch (plan g)),
          (''Snack'', snack (plan g)), (''Dinner'', dinner (plan g))]\<rparr>"

definition main_logic :: "globals \<Rightarrow> error + globals" where
  "main_logic g =
     (case assign_bmi g of
        Inl e \<Rightarrow> Inl e
      | Inr g \<Rightarrow>
          Inr (assign_df_plan (assign_report (assign_plan (assign_cal_target
                 (assign_tdee (assign_bmr (assign_category g))))))))"

text \<open>One submission: the widgets bind the six inputs, whatever the other variables
  hold, and the block runs.\<close>

definition submit_form ::
  "globals \<Rightarrow> int \<Rightarrow> string \<Rightarrow> int \<Rightarrow> int \<Rightarrow> string \<Rightarrow> string \<Rightarrow> error + globals" where
  "submit_form g a gd h w act gl =
     main_logic (g\<lparr>age := a, gender := gd, height_cm := h, weight_kg := w,
                   activity := act, goal := gl\<rparr>)"

text \<open>The order of the four categories, lowest first.\<close>

definition category_rank :: "string \<Rightarrow> nat" where
  "category_rank c =
     (if c = ''Underweight'' then 0 else if c = ''Normal weight'' then 1
      else if c = ''Overweight'' then 2 else 3)"

text \<open>A state for a first run. No statement of the block reads a variable of the block
  before it has written it, so these values never reach a result.\<close>

definition unset_globals :: globals where
  "unset_globals =
     \<lparr>age = 0, gender = [], height_cm = 0, weight_kg = 0, activity = [], goal = [],
      bmi = 0, category = [], bmr = 0, tdee = 0, cal_target = 0,
      plan = \<lparr>notes = [], breakfast = [], lunch = [], snack = [], dinner = []\<rparr>,
      report = [], df_plan = []\<rparr>"

section \<open>Rounding to a float\<close>

lemma pow2_power_int: "pow2 i = power_int 2 i"
  by (simp add: pow2_def power_int_def inverse_eq_divide power_one_over)

lemma pow2_pos: "0 < pow2 i"
  by (simp add: pow2_power_int)

lemma pow2_add: "pow2 (i + j) = pow2 i * pow2 j"
  by (simp add: pow2_power_int power_int_add)

lemma pow2_nat: "pow2 (int n) = 2 ^ n"
  by (simp add: pow2_def)

lemma pow2_less_cancel:
  assumes "pow2 i < pow2 j"
  shows "i < j"
proof (rule ccontr)
  assume "\<not> i < j"
  then have "j \<le> i" by simp
  then have "power_int (2::rat) j \<le> power_int 2 i" by (rule power_int_increasing) simp
  with assms show False by (simp add: pow2_power_int)
qed

lemma binade_lower:
  assumes "0 < a"
  shows "pow2 (binade a) \<le> a"
proof (cases "1 \<le> a")
  case True
  then have n: "0 < \<lfloor>a\<rfloor>" by simp
  from bitlen_bounds [OF n] have le: "2 ^ nat (bitlen \<lfloor>a\<rfloor> - 1) \<le> \<lfloor>a\<rfloor>" by simp
  have "1 \<le> bitlen \<lfloor>a\<rfloor>" using n by (simp add: bitlen_alt_def)
  then have "pow2 (binade a) = 2 ^ nat (bitlen \<lfloor>a\<rfloor> - 1)"
    using True by (simp add: binade_def pow2_def)
  also have "\<dots> = of_int (2 ^ nat (bitlen \<lfloor>a\<rfloor> - 1))" by simp
  also have "\<dots> \<le> of_int \<lfloor>a\<rfloor>" using le by (simp only: of_int_le_iff)
  also have "\<dots> \<le> a" by simp
  finally show ?thesis .
next
  case False
  with assms have lt: "a < 1" by simp
  then have "1 < 1 / a" using assms by simp
  then have c: "0 < \<lceil>1 / a\<rceil> - 1" by (simp add: less_ceiling_iff)
  define B where "B = bitlen (\<lceil>1 / a\<rceil> - 1)"
  from bitlen_bounds [OF c] have "\<lceil>1 / a\<rceil> - 1 < 2 ^ nat B" by (simp add: B_def)
  then have "\<lceil>1 / a\<rceil> \<le> 2 ^ nat B" by simp
  then have "1 / a \<le> of_int (2 ^ nat B)" by (simp only: ceiling_le_iff)
  then have "1 / a \<le> 2 ^ nat B" by simp
  then have "1 / 2 ^ nat B \<le> a" using assms
    by (simp add: field_simps)
  moreover have "pow2 (binade a) = 1 / 2 ^ nat B"
    using False bitlen_nonneg [of "\<lceil>1 / a\<rceil> - 1"] by (auto simp add: binade_def pow2_def B_def)
  ultimately show ?thesis by simp
qed

lemma rhe_of_int: "round_half_even (of_int n) = n"
  by (simp add: round_half_even_def)

lemma rhe_ge_floor: "\<lfloor>m\<rfloor> \<le> round_half_even m"
  by (simp add: round_half_even_def Let_def)

lemma fl_minus: "fl (- x) = - fl x"
  by (simp add: fl_def Let_def)

lemma fl_pos:
  assumes "0 < x"
  shows "0 < fl x"
proof -
  define u where "u = pow2 (binade \<bar>x\<bar> - 52)"
  have u: "0 < u" by (simp add: u_def pow2_pos)
  have "pow2 (binade x) = pow2 (binade x - 52) * pow2 52"
    using pow2_add [of "binade x - 52" 52] by simp
  also have "pow2 52 = 2 ^ 52" using pow2_nat [of 52] by simp
  finally have "u * 2 ^ 52 \<le> x" using binade_lower [OF assms] assms by (simp add: u_def)
  then have "2 ^ 52 \<le> x / u" using u by (simp add: field_simps)
  then have "1 \<le> x / u" by simp
  then have "1 \<le> \<lfloor>x / u\<rfloor>" by (simp add: le_floor_iff)
  then have "0 < round_half_even (x / u)" using rhe_ge_floor [of "x / u"] by linarith
  then have "0 < (of_int (round_half_even (x / u)) :: rat)" by simp
  then show ?thesis using assms u by (simp add: fl_def Let_def u_def)
qed

lemma fl_eq_0_iff: "fl x = 0 \<longleftrightarrow> x = 0"
proof (cases x "0::rat" rule: linorder_cases)
  case less
  then have "0 < fl (- x)" by (simp add: fl_pos)
  then show ?thesis using less by (simp add: fl_minus)
next
  case equal
  then show ?thesis by (simp add: fl_def)
next
  case greater
  then show ?thesis using fl_pos [of x] by simp
qed


lemma fl_dyadic:
  assumes "\<bar>k\<bar> < 2 ^ 53"
  shows "fl (of_int k / 2 ^ j) = of_int k / 2 ^ j"
proof (cases "k = 0")
  case True
  then show ?thesis by (simp add: fl_def)
next
  case False
  define x :: rat where "x = of_int k / 2 ^ j"
  define e where "e = binade \<bar>x\<bar>"
  have ax: "\<bar>x\<bar> = of_int \<bar>k\<bar> / 2 ^ j" by (simp add: x_def)
  have xpos: "0 < \<bar>x\<bar>" using False by (simp add: x_def)
  have "(of_int \<bar>k\<bar> :: rat) < of_int (2 ^ 53)" using assms by (simp only: of_int_less_iff)
  then have "\<bar>x\<bar> * pow2 (int j) < pow2 53"
    using pow2_nat [of 53] by (simp add: ax pow2_nat)
  moreover have "pow2 e * pow2 (int j) \<le> \<bar>x\<bar> * pow2 (int j)"
    using binade_lower [OF xpos] pow2_pos [of "int j"] by (simp add: e_def)
  ultimately have "pow2 (e + int j) < pow2 53" by (simp add: pow2_add)
  then have lt: "e + int j < 53" by (rule pow2_less_cancel)
  define d where "d = nat (52 - e - int j)"
  have "pow2 (e - 52) * pow2 (int d) * pow2 (int j) = pow2 0"
    using lt by (simp add: d_def flip: pow2_add)
  then have u: "pow2 (e - 52) * (2 ^ d * 2 ^ j) = 1"
    by (simp add: pow2_nat pow2_def mult.assoc)
  have "\<bar>x\<bar> / pow2 (e - 52) = \<bar>x\<bar> * (2 ^ d * 2 ^ j) / (pow2 (e - 52) * (2 ^ d * 2 ^ j))"
    by simp
  also have "\<dots> = of_int (\<bar>k\<bar> * 2 ^ d)" by (simp add: u ax)
  finally have m: "\<bar>x\<bar> / pow2 (e - 52) = of_int (\<bar>k\<bar> * 2 ^ d)" .
  have "of_int (\<bar>k\<bar> * 2 ^ d) * pow2 (e - 52) = \<bar>x\<bar>"
    using m pow2_pos [of "e - 52"] by (simp add: field_simps)
  then have bk: "of_int (\<bar>k\<bar> * 2 ^ d) * pow2 (e - 52) = \<bar>x\<bar>" .
  have r: "round_half_even (\<bar>x\<bar> / pow2 (e - 52)) = \<bar>k\<bar> * 2 ^ d"
    by (simp only: m rhe_of_int)
  have "fl x = sgn x * of_int (round_half_even (\<bar>x\<bar> / pow2 (e - 52))) * pow2 (e - 52)"
    using xpos by (simp add: fl_def Let_def e_def)
  also have "\<dots> = sgn x * (of_int (\<bar>k\<bar> * 2 ^ d) * pow2 (e - 52))"
    by (simp only: r mult.assoc)
  also have "\<dots> = sgn x * \<bar>x\<bar>" by (simp only: bk)
  also have "\<dots> = x" by (simp add: sgn_mult_abs)
  finally show ?thesis by (simp only: x_def)
qed

lemma fl_of_int:
  assumes "\<bar>k\<bar> < 2 ^ 53"
  shows "fl (of_int k) = of_int k"
  using fl_dyadic [OF assms, of 0] by simp

lemma fl_quarters:
  assumes "\<bar>k\<bar> < 2 ^ 53"
  shows "fl (of_int k / 4) = of_int k / 4"
  using fl_dyadic [OF assms, of 2] by simp


lemma float_of_int_eq_0_iff: "float_of_int n = 0 \<longleftrightarrow> n = 0"
  by (simp add: float_of_int_def fl_eq_0_iff)

lemma rhe_near:
  "m - 1 / 2 \<le> of_int (round_half_even m) \<and> of_int (round_half_even m) \<le> m + 1 / 2"
proof -
  define f where "f = \<lfloor>m\<rfloor>"
  have a: "of_int f \<le> m" and b: "m < of_int f + 1" unfolding f_def by linarith+
  consider (lo) "m - of_int f < 1 / 2" | (hi) "1 / 2 < m - of_int f" | (tie) "m - of_int f = 1 / 2"
    by linarith
  then show ?thesis
  proof cases
    case lo
    then have "round_half_even m = f" by (simp add: round_half_even_def Let_def f_def)
    then show ?thesis using a lo by simp
  next
    case hi
    then have "round_half_even m = f + 1" by (simp add: round_half_even_def Let_def f_def)
    then show ?thesis using b hi by simp
  next
    case tie
    then have "round_half_even m = f \<or> round_half_even m = f + 1"
      by (simp add: round_half_even_def Let_def f_def)
    then show ?thesis using tie by auto
  qed
qed





lemma binade_upper:
  assumes "0 < a"
  shows "a < pow2 (binade a + 1)"
proof (cases "1 \<le> a")
  case True
  then have n: "0 < \<lfloor>a\<rfloor>" by simp
  from bitlen_bounds [OF n] have "\<lfloor>a\<rfloor> + 1 \<le> 2 ^ nat (bitlen \<lfloor>a\<rfloor>)" by simp
  then have "(of_int (\<lfloor>a\<rfloor> + 1) :: rat) \<le> of_int (2 ^ nat (bitlen \<lfloor>a\<rfloor>))"
    by (simp only: of_int_le_iff)
  moreover have "a < of_int (\<lfloor>a\<rfloor> + 1)" by linarith
  ultimately have "a < 2 ^ nat (bitlen \<lfloor>a\<rfloor>)" by simp
  moreover have "pow2 (binade a + 1) = 2 ^ nat (bitlen \<lfloor>a\<rfloor>)"
    using True bitlen_nonneg [of "\<lfloor>a\<rfloor>"] by (simp add: binade_def pow2_def)
  ultimately show ?thesis by simp
next
  case False
  with assms have lt: "a < 1" by simp
  then have "1 < 1 / a" using assms by simp
  then have c: "0 < \<lceil>1 / a\<rceil> - 1" by (simp add: less_ceiling_iff)
  define B where "B = bitlen (\<lceil>1 / a\<rceil> - 1)"
  have B: "1 \<le> B" using c by (simp add: B_def bitlen_alt_def)
  from bitlen_bounds [OF c] have "2 ^ nat (B - 1) \<le> \<lceil>1 / a\<rceil> - 1" by (simp add: B_def)
  then have "(of_int (2 ^ nat (B - 1)) :: rat) \<le> of_int (\<lceil>1 / a\<rceil> - 1)"
    by (simp only: of_int_le_iff)
  moreover have "of_int (\<lceil>1 / a\<rceil> - 1) < 1 / a" by linarith
  ultimately have "2 ^ nat (B - 1) < 1 / a" by simp
  then have "a < 1 / 2 ^ nat (B - 1)" using assms by (simp add: field_simps)
  moreover have "pow2 (binade a + 1) = 1 / 2 ^ nat (B - 1)"
  proof (cases "B = 1")
    case True
    then show ?thesis using False by (simp add: binade_def pow2_def flip: B_def)
  next
    case False
    then have "binade a + 1 < 0" using B \<open>\<not> 1 \<le> a\<close> by (simp add: binade_def flip: B_def)
    moreover have "nat (- (binade a + 1)) = nat (B - 1)"
      using \<open>\<not> 1 \<le> a\<close> by (simp add: binade_def flip: B_def)
    ultimately show ?thesis by (simp add: pow2_def)
  qed
  ultimately show ?thesis by simp
qed

lemma rhe_unique:
  assumes "\<bar>m - of_int N\<bar> < 1 / 2"
  shows "round_half_even m = N"
proof -
  have "\<bar>(of_int (round_half_even m) :: rat) - of_int N\<bar> < 1"
    using rhe_near [of m] assms by linarith
  then have "\<bar>(of_int (round_half_even m - N) :: rat)\<bar> < of_int 1" by simp
  then have "\<bar>round_half_even m - N\<bar> < 1"
    by (simp only: of_int_abs [symmetric] of_int_less_iff)
  then show ?thesis by simp
qed

lemma rhe_le_ceiling: "round_half_even m \<le> \<lceil>m\<rceil>"
proof -
  have "(of_int (round_half_even m) :: rat) < of_int \<lceil>m\<rceil> + 1"
    using rhe_near [of m] le_of_int_ceiling [of m] by linarith
  then have "(of_int (round_half_even m) :: rat) < of_int (\<lceil>m\<rceil> + 1)" by simp
  then have "round_half_even m < \<lceil>m\<rceil> + 1" by (simp only: of_int_less_iff)
  then show ?thesis by simp
qed


lemma fl_pos_form:
  assumes "0 < x"
  shows "fl x = of_int (round_half_even (x / pow2 (binade x - 52))) * pow2 (binade x - 52)"
  using assms by (simp add: fl_def Let_def)

text \<open>Below \<open>2^53\<close> the unit of the last place is \<open>1 / 2^d\<close> for a natural \<open>d\<close>.\<close>

lemma ulp_inverse:
  assumes "0 < x" and "x < 2 ^ 53"
  obtains d :: nat where "pow2 (binade x - 52) * 2 ^ d = 1" and "x * 2 ^ d < 2 ^ 53"
proof -
  define e where "e = binade x"
  have "pow2 e \<le> x" using binade_lower [OF assms(1)] by (simp add: e_def)
  then have "pow2 e < pow2 53" using assms(2) pow2_nat [of 53] by simp
  then have e: "e < 53" by (rule pow2_less_cancel)
  define d where "d = nat (52 - e)"
  have "pow2 (e - 52) * pow2 (int d) = pow2 0" using e by (simp add: d_def flip: pow2_add)
  then have u: "pow2 (e - 52) * 2 ^ d = 1" by (simp add: pow2_nat pow2_def)
  have "e + 1 = e - 52 + 53" by simp
  then have "pow2 (e + 1) = pow2 (e - 52) * pow2 53" by (simp only: pow2_add)
  then have "x < pow2 (e - 52) * 2 ^ 53"
    using binade_upper [OF assms(1)] pow2_nat [of 53] by (simp add: e_def)
  then have "x * 2 ^ d < pow2 (e - 52) * 2 ^ 53 * 2 ^ d"
    by (intro mult_strict_right_mono) simp_all
  also have "\<dots> = (pow2 (e - 52) * 2 ^ d) * 2 ^ 53" by (simp add: mult_ac)
  also have "\<dots> = 2 ^ 53" by (simp add: u)
  finally have "x * 2 ^ d < 2 ^ 53" .
  with u show thesis by (intro that [of d]) (simp_all add: e_def)
qed

lemma fl_via_ulp:
  assumes "0 < x" and u: "pow2 (binade x - 52) * 2 ^ d = 1"
  shows "fl x = of_int (round_half_even (x * 2 ^ d)) / 2 ^ d"
proof -
  have p: "pow2 (binade x - 52) = 1 / 2 ^ d"
    using u by (simp add: field_simps)
  show ?thesis unfolding fl_pos_form [OF assms(1)] p by simp
qed

lemma fl_ge_int:
  assumes "0 < n" and "of_int n \<le> x" and "x < 2 ^ 53"
  shows "of_int n \<le> fl x"
proof -
  have x: "0 < x" using assms(1,2) by (smt (verit) of_int_pos order_less_le_trans)
  from ulp_inverse [OF x assms(3)] obtain d :: nat
    where u: "pow2 (binade x - 52) * 2 ^ d = 1" by blast
  have "(of_int (n * 2 ^ d) :: rat) \<le> x * 2 ^ d"
    using assms(2) by simp
  then have "n * 2 ^ d \<le> \<lfloor>x * 2 ^ d\<rfloor>" by (simp only: le_floor_iff)
  then have "n * 2 ^ d \<le> round_half_even (x * 2 ^ d)"
    using rhe_ge_floor [of "x * 2 ^ d"] by linarith
  then have "(of_int (n * 2 ^ d) :: rat) \<le> of_int (round_half_even (x * 2 ^ d))"
    by (simp only: of_int_le_iff)
  then have "of_int n * 2 ^ d / 2 ^ d \<le> (of_int (round_half_even (x * 2 ^ d)) :: rat) / 2 ^ d"
    by (intro divide_right_mono) simp_all
  then show ?thesis unfolding fl_via_ulp [OF x u] by simp
qed

lemma fl_le_dyadic:
  assumes "0 < x" and "x \<le> of_int k / 2 ^ j" and "k < 2 ^ 53"
  shows "fl x \<le> of_int k / 2 ^ j"
proof -
  define e where "e = binade x"
  have "(of_int k :: rat) < of_int (2 ^ 53)" using assms(3) by (simp only: of_int_less_iff)
  then have "of_int k / 2 ^ j < (2 ^ 53 / 2 ^ j :: rat)"
    by (intro divide_strict_right_mono) simp_all
  then have "x * pow2 (int j) < pow2 53"
    using assms(2) pow2_nat [of 53] by (simp add: pow2_nat field_simps)
  moreover have "pow2 e * pow2 (int j) \<le> x * pow2 (int j)"
    using binade_lower [OF assms(1)] pow2_pos [of "int j"] by (simp add: e_def)
  ultimately have "pow2 (e + int j) < pow2 53" by (simp add: pow2_add)
  then have lt: "e + int j < 53" by (rule pow2_less_cancel)
  define d where "d = nat (52 - e - int j)"
  have "pow2 (e - 52) * pow2 (int d) * pow2 (int j) = pow2 0"
    using lt by (simp add: d_def flip: pow2_add)
  then have u: "pow2 (e - 52) * (2 ^ d * 2 ^ j) = 1"
    by (simp add: pow2_nat pow2_def mult.assoc)
  then have u': "pow2 (binade x - 52) * 2 ^ (d + j) = 1" by (simp add: e_def power_add)
  have "x * 2 ^ (d + j) \<le> of_int k / 2 ^ j * 2 ^ (d + j)"
    using assms(2) by (intro mult_right_mono) simp_all
  also have "\<dots> = of_int (k * 2 ^ d)" by (simp add: power_add)
  finally have "\<lceil>x * 2 ^ (d + j)\<rceil> \<le> k * 2 ^ d" by (simp only: ceiling_le_iff)
  then have "round_half_even (x * 2 ^ (d + j)) \<le> k * 2 ^ d"
    using rhe_le_ceiling [of "x * 2 ^ (d + j)"] by linarith
  then have "(of_int (round_half_even (x * 2 ^ (d + j))) :: rat) \<le> of_int (k * 2 ^ d)"
    by (simp only: of_int_le_iff)
  then have "(of_int (round_half_even (x * 2 ^ (d + j))) :: rat) / 2 ^ (d + j)
               \<le> of_int (k * 2 ^ d) / 2 ^ (d + j)"
    by (intro divide_right_mono) simp_all
  also have "\<dots> = of_int k / 2 ^ j" by (simp add: power_add)
  finally show ?thesis unfolding fl_via_ulp [OF assms(1) u'] .
qed

lemma fl_round_up:
  assumes "0 < x" and "x \<le> of_int n" and "n < 2 ^ 53"
    and "(of_int n - x) * 2 ^ 54 \<le> x"
  shows "fl x = of_int n"
proof -
  have "(of_int n :: rat) < of_int (2 ^ 53)" using assms(3) by (simp only: of_int_less_iff)
  then have x53: "x < 2 ^ 53" using assms(2) by simp
  from ulp_inverse [OF assms(1) x53] obtain d :: nat
    where u: "pow2 (binade x - 52) * 2 ^ d = 1" and b: "x * 2 ^ d < 2 ^ 53" by blast
  define D :: rat where "D = 2 ^ d"
  have D: "0 < D" by (simp add: D_def)
  define z where "z = (of_int n - x) * D"
  have xD: "x * D < 2 ^ 53" using b by (simp only: D_def)
  have "(of_int n - x) * 2 ^ 54 * D \<le> x * D"
    using assms(4) D by (intro mult_right_mono) simp_all
  moreover have "(of_int n - x) * 2 ^ 54 * D = z * 2 ^ 54" by (simp add: z_def)
  ultimately have "z * 2 ^ 54 < 2 ^ 53" using xD by linarith
  then have lt: "z < 1 / 2" by simp
  have ge: "0 \<le> z" using assms(2) D by (simp add: z_def)
  have "x * D - of_int (n * 2 ^ d) = - z" by (simp add: z_def D_def algebra_simps)
  then have "\<bar>x * D - of_int (n * 2 ^ d)\<bar> < 1 / 2"
    using lt ge by (simp only: abs_minus)
  then have "round_half_even (x * 2 ^ d) = n * 2 ^ d" unfolding D_def by (rule rhe_unique)
  then show ?thesis unfolding fl_via_ulp [OF assms(1) u] by simp
qed


lemma fl_nonneg: "0 \<le> x \<Longrightarrow> 0 \<le> fl x"
  using fl_pos [of x] by (cases "x = 0") (simp_all add: fl_def less_eq_rat_def)

section \<open>The categorizer\<close>

text \<open>
  Claim C1. The categorizer is a total step function of the BMI value with left-closed
  bands: below 18.5 it answers Underweight, from 18.5 and below 25 Normal weight, from 25
  and below 30 Overweight, from 30 on Obese; the boundary values 18.5, 25 and 30 belong to
  the upper band, and a larger BMI never gets a lower category.
\<close>

theorem bmi_category_bands:
  "(x < 18.5 \<longrightarrow> bmi_category x = ''Underweight'') \<and>
   (18.5 \<le> x \<and> x < 25 \<longrightarrow> bmi_category x = ''Normal weight'') \<and>
   (25 \<le> x \<and> x < 30 \<longrightarrow> bmi_category x = ''Overweight'') \<and>
   (30 \<le> x \<longrightarrow> bmi_category x = ''Obese'') \<and>
   bmi_category 18.5 = ''Normal weight'' \<and>
   bmi_category 25 = ''Overweight'' \<and>
   bmi_category 30 = ''Obese'' \<and>
   (x \<le> y \<longrightarrow> category_rank (bmi_category x) \<le> category_rank (bmi_category y))"
  by (simp add: bmi_category_def category_rank_def)

theorem bmi_category_bands_witness:
  "(18.25 :: rat) < 18.5 \<and> bmi_category 18.25 = ''Underweight'' \<and>
   (18.5 :: rat) \<le> 24.75 \<and> (24.75 :: rat) < 25 \<and> bmi_category 24.75 = ''Normal weight'' \<and>
   (25 :: rat) \<le> 29.5 \<and> (29.5 :: rat) < 30 \<and> bmi_category 29.5 = ''Overweight'' \<and>
   (30 :: rat) \<le> 31 \<and> bmi_category 31 = ''Obese'' \<and>
   (18.25 :: rat) \<le> 31 \<and>
   category_rank (bmi_category 18.25) \<le> category_rank (bmi_category 31)"
  using bmi_category_bands [of "18.25" 31] bmi_category_bands [of "24.75" 31]
    bmi_category_bands [of "29.5" 31] bmi_category_bands [of 31 31]
  by (simp add: category_rank_def)

section \<open>The BMI calculator\<close>





text \<open>
  The rounding shows at 64 kg and 160 cm: the exact quotient is 25, the float result lies
  just below it, and the category is Normal weight.
\<close>

lemma bmi_64_160:
  "calculate_bmi 64 160 = Inr (7036874417766399 / 281474976710656) \<and>
   (7036874417766399 / 281474976710656 :: rat) < 25 \<and>
   (64 / (160 / 100) ^ 2 :: rat) = 25 \<and>
   bmi_category (7036874417766399 / 281474976710656) = ''Normal weight''"
  by code_simp








section \<open>The basal metabolic rate\<close>

lemma fl_quarter_eq:
  assumes "x = of_int k / 4" and "\<bar>k\<bar> < 2 ^ 53"
  shows "fl x = of_int k / 4"
  unfolding assms(1) by (rule fl_quarters [OF assms(2)])

lemma fl_int_eq:
  assumes "x = of_int k" and "\<bar>k\<bar> < 2 ^ 53"
  shows "fl x = of_int k"
  unfolding assms(1) by (rule fl_of_int [OF assms(2)])

lemma mifflin_exact:
  assumes "\<bar>w\<bar> \<le> 2 ^ 40" and "\<bar>h\<bar> \<le> 2 ^ 40" and "\<bar>a\<bar> \<le> 2 ^ 40"
  shows "fsub (fadd (float_of_int (10 * w)) (fmul 6.25 (float_of_int h))) (float_of_int (5 * a))
           = of_int (40 * w + 25 * h - 20 * a) / 4"
proof -
  have w: "\<bar>w\<bar> \<le> 1099511627776" and h: "\<bar>h\<bar> \<le> 1099511627776"
    and a: "\<bar>a\<bar> \<le> 1099511627776"
    using assms by simp_all
  have t1: "float_of_int (10 * w) = of_int (10 * w)"
    unfolding float_of_int_def
  proof (rule fl_int_eq)
    show "\<bar>10 * w\<bar> < 2 ^ 53" using w by simp
  qed simp
  have fh: "float_of_int h = of_int h"
    unfolding float_of_int_def
  proof (rule fl_int_eq)
    show "\<bar>h\<bar> < 2 ^ 53" using h by simp
  qed simp
  have t2: "fmul 6.25 (float_of_int h) = of_int (25 * h) / 4"
    unfolding fmul_def fh
  proof (rule fl_quarter_eq)
    show "\<bar>25 * h\<bar> < 2 ^ 53" using h by simp
  qed simp
  have t3: "fadd (of_int (10 * w)) (of_int (25 * h) / 4) = of_int (40 * w + 25 * h) / 4"
    unfolding fadd_def
  proof (rule fl_quarter_eq)
    show "\<bar>40 * w + 25 * h\<bar> < 2 ^ 53" using w h by simp
  qed simp
  have t4: "float_of_int (5 * a) = of_int (5 * a)"
    unfolding float_of_int_def
  proof (rule fl_int_eq)
    show "\<bar>5 * a\<bar> < 2 ^ 53" using a by simp
  qed simp
  have t5: "fsub (of_int (40 * w + 25 * h) / 4) (of_int (5 * a))
              = of_int (40 * w + 25 * h - 20 * a) / 4"
    unfolding fsub_def
  proof (rule fl_quarter_eq)
    show "\<bar>40 * w + 25 * h - 20 * a\<bar> < 2 ^ 53" using w h a by simp
  qed simp
  show ?thesis by (simp only: t1 t2 t3 t4 t5)
qed


lemma float_of_int_small: "\<bar>k\<bar> < 2 ^ 53 \<Longrightarrow> float_of_int k = of_int k"
  by (simp add: float_of_int_def fl_of_int)

lemma bmr_male_unfold:
  "bmr_mifflin w h a ''Male'' =
     fadd (fsub (fadd (float_of_int (10 * w)) (fmul 6.25 (float_of_int h)))
                (float_of_int (5 * a))) (float_of_int 5)"
  by (simp add: bmr_mifflin_def)

lemma bmr_female_unfold:
  "bmr_mifflin w h a ''Female'' =
     fsub (fsub (fadd (float_of_int (10 * w)) (fmul 6.25 (float_of_int h)))
                (float_of_int (5 * a))) (float_of_int 161)"
  by (simp add: bmr_mifflin_def)

lemma bmr_male_exact:
  assumes "\<bar>w\<bar> \<le> 2 ^ 40" and "\<bar>h\<bar> \<le> 2 ^ 40" and "\<bar>a\<bar> \<le> 2 ^ 40"
  shows "bmr_mifflin w h a ''Male'' = of_int (40 * w + 25 * h - 20 * a + 20) / 4"
proof -
  have w: "\<bar>w\<bar> \<le> 1099511627776" and h: "\<bar>h\<bar> \<le> 1099511627776"
    and a: "\<bar>a\<bar> \<le> 1099511627776"
    using assms by simp_all
  have "fadd (of_int (40 * w + 25 * h - 20 * a) / 4) (float_of_int 5)
          = of_int (40 * w + 25 * h - 20 * a + 20) / 4"
    unfolding fadd_def
  proof (rule fl_quarter_eq)
    show "\<bar>40 * w + 25 * h - 20 * a + 20\<bar> < 2 ^ 53" using w h a by simp
  qed (simp add: float_of_int_small)
  then show ?thesis unfolding bmr_male_unfold mifflin_exact [OF assms] .
qed

lemma bmr_female_exact:
  assumes "\<bar>w\<bar> \<le> 2 ^ 40" and "\<bar>h\<bar> \<le> 2 ^ 40" and "\<bar>a\<bar> \<le> 2 ^ 40"
  shows "bmr_mifflin w h a ''Female'' = of_int (40 * w + 25 * h - 20 * a - 644) / 4"
proof -
  have w: "\<bar>w\<bar> \<le> 1099511627776" and h: "\<bar>h\<bar> \<le> 1099511627776"
    and a: "\<bar>a\<bar> \<le> 1099511627776"
    using assms by simp_all
  have "fsub (of_int (40 * w + 25 * h - 20 * a) / 4) (float_of_int 161)
          = of_int (40 * w + 25 * h - 20 * a - 644) / 4"
    unfolding fsub_def
  proof (rule fl_quarter_eq)
    show "\<bar>40 * w + 25 * h - 20 * a - 644\<bar> < 2 ^ 53" using w h a by simp
  qed (simp add: float_of_int_small)
  then show ?thesis unfolding bmr_female_unfold mifflin_exact [OF assms] .
qed

lemma bmr_other_mean:
  assumes "g \<noteq> ''Male''" and "g \<noteq> ''Female''"
  shows "bmr_mifflin w h a g =
           fl (fadd (bmr_mifflin w h a ''Male'') (bmr_mifflin w h a ''Female'') / 2)"
  using assms by (simp add: bmr_mifflin_def Let_def float_of_int_small)

lemma bmr_other_exact:
  assumes "\<bar>w\<bar> \<le> 2 ^ 40" and "\<bar>h\<bar> \<le> 2 ^ 40" and "\<bar>a\<bar> \<le> 2 ^ 40"
    and "g \<noteq> ''Male''" and "g \<noteq> ''Female''"
  shows "bmr_mifflin w h a g = of_int (40 * w + 25 * h - 20 * a - 312) / 4"
proof -
  have w: "\<bar>w\<bar> \<le> 1099511627776" and h: "\<bar>h\<bar> \<le> 1099511627776"
    and a: "\<bar>a\<bar> \<le> 1099511627776"
    using assms by simp_all
  have s: "fadd (of_int (40 * w + 25 * h - 20 * a + 20) / 4)
                (of_int (40 * w + 25 * h - 20 * a - 644) / 4)
             = of_int (80 * w + 50 * h - 40 * a - 624) / 4"
    unfolding fadd_def
  proof (rule fl_quarter_eq)
    show "\<bar>80 * w + 50 * h - 40 * a - 624\<bar> < 2 ^ 53" using w h a by simp
  qed (simp add: field_simps)
  have d: "fl (of_int (80 * w + 50 * h - 40 * a - 624) / 4 / 2)
             = of_int (40 * w + 25 * h - 20 * a - 312) / 4"
  proof (rule fl_quarter_eq)
    show "\<bar>40 * w + 25 * h - 20 * a - 312\<bar> < 2 ^ 53" using w h a by simp
  qed (simp add: field_simps)
  show ?thesis
    unfolding bmr_other_mean [OF assms(4,5)]
      bmr_male_exact [OF assms(1-3)] bmr_female_exact [OF assms(1-3)] s d ..
qed

text \<open>
  Claim C2. For every weight, height and age the function evaluates
  \<open>10 * weight + 6.25 * height_cm - 5 * age + 5\<close> for Male, the same with \<open>- 161\<close> for
  Female, and for any other gender the mean of the two. As long as the inputs stay below
  \<open>2^40\<close> in magnitude no float operation rounds and the results are exactly the values
  of these formulas; for 70 kg, 170 cm and 25 years they are 1642.5, 1476.5 and 1559.5.
\<close>

theorem bmr_mifflin_formula:
  "bmr_mifflin w h a ''Male'' =
     fadd (fsub (fadd (float_of_int (10 * w)) (fmul 6.25 (float_of_int h)))
                (float_of_int (5 * a))) 5 \<and>
   bmr_mifflin w h a ''Female'' =
     fsub (fsub (fadd (float_of_int (10 * w)) (fmul 6.25 (float_of_int h)))
                (float_of_int (5 * a))) 161 \<and>
   (g \<noteq> ''Male'' \<and> g \<noteq> ''Female'' \<longrightarrow>
      bmr_mifflin w h a g =
        fl (fadd (bmr_mifflin w h a ''Male'') (bmr_mifflin w h a ''Female'') / 2)) \<and>
   (\<bar>w\<bar> \<le> 2 ^ 40 \<and> \<bar>h\<bar> \<le> 2 ^ 40 \<and> \<bar>a\<bar> \<le> 2 ^ 40 \<longrightarrow>
      bmr_mifflin w h a ''Male'' = 10 * of_int w + 6.25 * of_int h - 5 * of_int a + 5 \<and>
      bmr_mifflin w h a ''Female'' = 10 * of_int w + 6.25 * of_int h - 5 * of_int a - 161 \<and>
      (g \<noteq> ''Male'' \<and> g \<noteq> ''Female'' \<longrightarrow>
         bmr_mifflin w h a g =
           ((10 * of_int w + 6.25 * of_int h - 5 * of_int a + 5)
            + (10 * of_int w + 6.25 * of_int h - 5 * of_int a - 161)) / 2)) \<and>
   bmr_mifflin 70 170 25 ''Male'' = 1642.5 \<and>
   bmr_mifflin 70 170 25 ''Female'' = 1476.5 \<and>
   bmr_mifflin 70 170 25 ''Other'' = 1559.5"
proof -
  have m: "bmr_mifflin w h a ''Male'' =
     fadd (fsub (fadd (float_of_int (10 * w)) (fmul 6.25 (float_of_int h)))
                (float_of_int (5 * a))) 5"
    by (simp add: bmr_mifflin_def float_of_int_small)
  have f: "bmr_mifflin w h a ''Female'' =
     fsub (fsub (fadd (float_of_int (10 * w)) (fmul 6.25 (float_of_int h)))
                (float_of_int (5 * a))) 161"
    by (simp add: bmr_mifflin_def float_of_int_small)
  have em: "bmr_mifflin w h a ''Male'' = 10 * of_int w + 6.25 * of_int h - 5 * of_int a + 5"
    if "\<bar>w\<bar> \<le> 2 ^ 40" "\<bar>h\<bar> \<le> 2 ^ 40" "\<bar>a\<bar> \<le> 2 ^ 40"
    unfolding bmr_male_exact [OF that] by simp
  have ef: "bmr_mifflin w h a ''Female'' = 10 * of_int w + 6.25 * of_int h - 5 * of_int a - 161"
    if "\<bar>w\<bar> \<le> 2 ^ 40" "\<bar>h\<bar> \<le> 2 ^ 40" "\<bar>a\<bar> \<le> 2 ^ 40"
    unfolding bmr_female_exact [OF that] by simp
  have eo: "bmr_mifflin w h a g =
           ((10 * of_int w + 6.25 * of_int h - 5 * of_int a + 5)
            + (10 * of_int w + 6.25 * of_int h - 5 * of_int a - 161)) / 2"
    if "\<bar>w\<bar> \<le> 2 ^ 40" "\<bar>h\<bar> \<le> 2 ^ 40" "\<bar>a\<bar> \<le> 2 ^ 40" "g \<noteq> ''Male''" "g \<noteq> ''Female''"
    unfolding bmr_other_exact [OF that] by simp
  have x1: "bmr_mifflin 70 170 25 ''Male'' = 1642.5" by code_simp
  have x2: "bmr_mifflin 70 170 25 ''Female'' = 1476.5" by code_simp
  have x3: "bmr_mifflin 70 170 25 ''Other'' = 1559.5" by code_simp
  show ?thesis using m f bmr_other_mean [of g w h a] em ef eo x1 x2 x3 by blast
qed

theorem bmr_mifflin_formula_witness:
  "''Other'' \<noteq> ''Male'' \<and> ''Other'' \<noteq> ''Female'' \<and>
   \<bar>64 :: int\<bar> \<le> 2 ^ 40 \<and> \<bar>160 :: int\<bar> \<le> 2 ^ 40 \<and> \<bar>40 :: int\<bar> \<le> 2 ^ 40 \<and>
   bmr_mifflin 64 160 40 ''Male'' = 1445 \<and>
   bmr_mifflin 64 160 40 ''Female'' = 1279 \<and>
   bmr_mifflin 64 160 40 ''Other'' = 1362"
proof -
  have b: "\<bar>64 :: int\<bar> \<le> 2 ^ 40 \<and> \<bar>160 :: int\<bar> \<le> 2 ^ 40 \<and> \<bar>40 :: int\<bar> \<le> 2 ^ 40"
    by simp
  have o: "''Other'' \<noteq> ''Male'' \<and> ''Other'' \<noteq> ''Female''" by simp
  from bmr_mifflin_formula [of 64 160 40 "''Other''"] b o
  have "bmr_mifflin 64 160 40 ''Male'' = 10 * of_int 64 + 6.25 * of_int 160 - 5 * of_int 40 + 5"
    and "bmr_mifflin 64 160 40 ''Female'' = 10 * of_int 64 + 6.25 * of_int 160 - 5 * of_int 40 - 161"
    and "bmr_mifflin 64 160 40 ''Other'' =
           ((10 * of_int 64 + 6.25 * of_int 160 - 5 * of_int 40 + 5)
            + (10 * of_int 64 + 6.25 * of_int 160 - 5 * of_int 40 - 161)) / 2"
    by blast+
  then show ?thesis using b by simp
qed

section \<open>Energy expenditure and calorie target\<close>

text \<open>
  For the inputs the form can give, the BMR is a quarter multiple between 0 and \<open>2^20\<close>.
\<close>

lemma bmr_of_form:
  assumes "form_ranges a gd h w act gl"
  shows "\<exists>k. 0 \<le> k \<and> k \<le> 2 ^ 22 \<and> bmr_mifflin w h a gd = of_int k / 4"
proof -
  have r: "5 \<le> a" "a \<le> 120" "100 \<le> h" "h \<le> 220" "30 \<le> w" "w \<le> 200"
    using assms by (simp_all add: form_ranges_def)
  have b: "\<bar>w\<bar> \<le> 2 ^ 40" "\<bar>h\<bar> \<le> 2 ^ 40" "\<bar>a\<bar> \<le> 2 ^ 40"
    using r by simp_all
  consider (m) "gd = ''Male''" | (f) "gd = ''Female''" | (o) "gd \<noteq> ''Male''" "gd \<noteq> ''Female''"
    by blast
  then show ?thesis
  proof cases
    case m
    have "0 \<le> 40 * w + 25 * h - 20 * a + 20 \<and> 40 * w + 25 * h - 20 * a + 20 \<le> 2 ^ 22"
      using r by simp
    then show ?thesis unfolding m bmr_male_exact [OF b] by blast
  next
    case f
    have "0 \<le> 40 * w + 25 * h - 20 * a - 644 \<and> 40 * w + 25 * h - 20 * a - 644 \<le> 2 ^ 22"
      using r by simp
    then show ?thesis unfolding f bmr_female_exact [OF b] by blast
  next
    case o
    have "0 \<le> 40 * w + 25 * h - 20 * a - 312 \<and> 40 * w + 25 * h - 20 * a - 312 \<le> 2 ^ 22"
      using r by simp
    then show ?thesis unfolding bmr_other_exact [OF b o] by blast
  qed
qed

lemma py_int_sgn: "of_int (py_int x) = sgn x * of_int \<lfloor>\<bar>x\<bar>\<rfloor>"
proof (cases "0 \<le> x")
  case True
  then show ?thesis by (cases "x = 0") (simp_all add: py_int_def)
next
  case False
  then have "\<lceil>x\<rceil> = - \<lfloor>- x\<rfloor>" by (simp add: ceiling_def)
  then show ?thesis using False by (simp add: py_int_def)
qed

lemma activity_factor_table:
  "activity_factor ''Sedentary (little or no exercise)'' = fl 1.2"
  "activity_factor ''Lightly active (light exercise/sports 1-3 days/week)'' = fl 1.375"
  "activity_factor ''Moderately active (moderate exercise/sports 3-5 days/week)'' = fl 1.55"
  "activity_factor ''Very active (hard exercise/sports 6-7 days/week)'' = fl 1.725"
  "activity_factor ''Extra active (very hard exercise or physical job)'' = fl 1.9"
  by (simp_all add: activity_factor_def activity_mapping_def)

lemma goal_offset_table:
  "adjust_calorie_for_goal t ''Maintain weight'' = t"
  "adjust_calorie_for_goal t ''Mild weight loss'' = t - 250"
  "adjust_calorie_for_goal t ''Weight loss'' = t - 500"
  "adjust_calorie_for_goal t ''Mild weight gain'' = t + 250"
  "adjust_calorie_for_goal t ''Weight gain'' = t + 500"
  by (simp_all add: adjust_calorie_for_goal_def goal_mapping_def)

lemma fl_11_8: "fl 1.375 = 1.375"
  using fl_dyadic [of 11 3] by simp

text \<open>
  A quarter multiple \<open>k / 4\<close> times a float \<open>cd\<close> next to the fraction \<open>P / Q\<close>: the
  truncated float product is the truncated exact product \<open>k * P / (4 * Q)\<close>.
\<close>

lemma trunc_product:
  fixes k P Q :: int and cd :: rat
  assumes k: "0 \<le> k" "k \<le> 2 ^ 22"
    and P: "0 < P" "P \<le> 128" and Q: "0 < Q" "Q \<le> 64"
    and cd0: "0 < cd"
    and cd: "\<bar>cd - of_int P / of_int Q\<bar> \<le> 1 / 2 ^ 52"
    and low: "(of_int P / of_int Q - cd) * 2 ^ 54 \<le> cd"
  shows "py_int (fl (of_int k / 4 * cd)) = (k * P) div (4 * Q)"
proof -
  define b :: rat where "b = of_int k / 4"
  define c :: rat where "c = of_int P / of_int Q"
  define p where "p = b * cd"
  define n where "n = (k * P) div (4 * Q)"
  define r where "r = (k * P) mod (4 * Q)"
  define t :: rat where "t = of_int r / of_int (4 * Q)"
  have b0: "0 \<le> b" using k(1) by (simp add: b_def)
  have "(of_int k :: rat) \<le> of_int (2 ^ 22)" using k(2) by (simp only: of_int_le_iff)
  then have b1: "b \<le> 2 ^ 20" by (simp add: b_def)
  have r: "0 \<le> r" "r \<le> 4 * Q - 1" using Q by (simp_all add: r_def)
  have n0: "0 \<le> n" using k P Q by (simp add: n_def pos_imp_zdiv_nonneg_iff)
  have "k * P \<le> 2 ^ 22 * 128" using k P by (intro mult_mono) simp_all
  moreover have "n \<le> k * P"
  proof (cases "k = 0")
    case True
    then show ?thesis by (simp add: n_def)
  next
    case False
    then have "0 < k * P" using k(1) P(1) by simp
    then show ?thesis unfolding n_def by (rule int_div_le_self)
  qed
  ultimately have n1: "n \<le> 2 ^ 29" by simp
  have Qr: "(0 :: rat) < of_int (4 * Q)" using Q by simp
  have "k * P = n * (4 * Q) + r" unfolding n_def r_def by (rule div_mult_mod_eq [symmetric])
  then have "(of_int (k * P) :: rat) = of_int (n * (4 * Q) + r)" by (simp only:)
  then have "(of_int (k * P) :: rat) / of_int (4 * Q) = of_int n + t"
    using Qr by (simp add: t_def field_simps)
  moreover have "b * c = of_int (k * P) / of_int (4 * Q)"
    using Q by (simp add: b_def c_def)
  ultimately have bc: "b * c = of_int n + t" by simp
  have t0: "0 \<le> t" using r(1) Qr by (simp add: t_def)
  have "(of_int r :: rat) \<le> of_int (4 * Q - 1)" using r(2) by (simp only: of_int_le_iff)
  then have "t \<le> of_int (4 * Q - 1) / of_int (4 * Q)"
    unfolding t_def using Qr by (intro divide_right_mono) simp_all
  also have "\<dots> = 1 - 1 / of_int (4 * Q)" using Qr by (simp add: field_simps)
  also have "\<dots> \<le> 1 - 1 / 256"
  proof -
    have "(of_int (4 * Q) :: rat) \<le> of_int 256" using Q by (simp only: of_int_le_iff)
    then have "1 / 256 \<le> 1 / (of_int (4 * Q) :: rat)"
      using Qr by (simp add: field_simps)
    then show ?thesis by simp
  qed
  finally have t1: "t \<le> 1 - 1 / 256" .
  have "\<bar>p - b * c\<bar> = b * \<bar>cd - c\<bar>"
    using b0 by (simp add: p_def abs_mult flip: right_diff_distrib)
  also have "\<dots> \<le> 2 ^ 20 * (1 / 2 ^ 52)"
    using b0 b1 cd by (intro mult_mono) (simp_all add: c_def)
  also have "\<dots> = 1 / 2 ^ 32" by simp
  finally have err: "\<bar>p - b * c\<bar> \<le> 1 / 2 ^ 32" .
  have e1: "p - (of_int n + t) \<le> 1 / 4294967296"
    using abs_le_D1 [OF err] unfolding bc by simp
  have e2: "- (p - (of_int n + t)) \<le> 1 / 4294967296"
    using abs_le_D2 [OF err] unfolding bc by simp
  have p0: "0 \<le> p" using b0 cd0 by (simp add: p_def)
  define y :: rat where "y = of_int ((n + 1) * 2 ^ 20 - 1) / 2 ^ 20"
  have y: "y = of_int n + 1 - 1 / 2 ^ 20" by (simp add: y_def field_simps)
  have py: "p \<le> y" using e1 t1 unfolding y by simp
  have "(n + 1) * 2 ^ 20 - 1 < 2 ^ 53" using n1 by simp
  then have "fl p \<le> y" if "0 < p"
    unfolding y_def using that py [unfolded y_def] by (intro fl_le_dyadic)
  then have "fl p \<le> y" using p0 by (cases "p = 0") (auto simp add: fl_def y n0)
  then have upper: "fl p < of_int n + 1" unfolding y by simp
  have "(of_int n :: rat) \<le> of_int (2 ^ 29)" using n1 by (simp only: of_int_le_iff)
  then have p53: "p < 2 ^ 53" using py unfolding y by (simp; linarith)
  have lower: "of_int n \<le> fl p"
  proof (cases "n = 0")
    case True
    then show ?thesis using fl_nonneg [OF p0] by simp
  next
    case False
    then have npos: "0 < n" using n0 by simp
    show ?thesis
    proof (cases "r = 0")
      case False
      then have "1 \<le> r" using r(1) by simp
      then have "(of_int 1 :: rat) \<le> of_int r" by (simp only: of_int_le_iff)
      then have "1 / of_int (4 * Q) \<le> t"
        unfolding t_def using Qr by (intro divide_right_mono) simp_all
      moreover have "1 / 256 \<le> 1 / (of_int (4 * Q) :: rat)"
      proof -
        have "(of_int (4 * Q) :: rat) \<le> of_int 256" using Q by (simp only: of_int_le_iff)
        then show ?thesis using Qr by (simp add: field_simps)
      qed
      ultimately have "1 / 256 \<le> t" by simp
      then have "of_int n \<le> p" using e2 by simp
      then show ?thesis using npos p53 by (intro fl_ge_int)
    next
      case True
      then have bcn: "b * c = of_int n" using bc by (simp add: t_def)
      show ?thesis
      proof (cases "c \<le> cd")
        case True
        then have "b * c \<le> b * cd" using b0 by (intro mult_left_mono)
        then have "of_int n \<le> p" by (simp add: bcn p_def)
        then show ?thesis using npos p53 by (intro fl_ge_int)
      next
        case False
        then have "b * cd \<le> b * c" using b0 by (intro mult_left_mono) simp_all
        then have le: "p \<le> of_int n" by (simp add: bcn p_def)
        have "b \<noteq> 0" using bcn npos by auto
        then have ppos: "0 < p" using b0 cd0 by (simp add: p_def)
        have "b * ((c - cd) * 2 ^ 54) \<le> b * cd"
          using low b0 by (intro mult_left_mono) (simp_all add: c_def)
        moreover have "b * ((c - cd) * 2 ^ 54) = (of_int n - p) * 2 ^ 54"
          by (simp add: bcn [symmetric] p_def algebra_simps)
        ultimately have "(of_int n - p) * 2 ^ 54 \<le> p" by (simp add: p_def)
        moreover have "n < 2 ^ 53" using n1 by simp
        ultimately have "fl p = of_int n" using ppos le by (intro fl_round_up)
        then show ?thesis by simp
      qed
    qed
  qed
  have "0 \<le> fl p" by (rule fl_nonneg [OF p0])
  then have "py_int (fl p) = \<lfloor>fl p\<rfloor>" by (simp add: py_int_def)
  also have "\<dots> = n" using lower upper by (intro floor_unique) simp_all
  finally show ?thesis by (simp add: p_def b_def n_def)
qed


lemma trunc_product_exact:
  fixes k P Q :: int and cd :: rat
  assumes "0 \<le> k" "k \<le> 2 ^ 22" "0 < P" "P \<le> 128" "0 < Q" "Q \<le> 64" "0 < cd"
    and "\<bar>cd - of_int P / of_int Q\<bar> \<le> 1 / 2 ^ 52"
    and "(of_int P / of_int Q - cd) * 2 ^ 54 \<le> cd"
  shows "py_int (fmul (of_int k / 4) cd) = py_int (of_int k / 4 * (of_int P / of_int Q))"
proof -
  have e: "(of_int k :: rat) / 4 * (of_int P / of_int Q) = of_int (k * P) / of_int (4 * Q)"
    by simp
  have "(0 :: rat) \<le> of_int (k * P) / of_int (4 * Q)"
    using assms(1,3,5) by (intro divide_nonneg_nonneg) simp_all
  then have "py_int (of_int (k * P) / of_int (4 * Q)) = \<lfloor>(of_int (k * P) :: rat) / of_int (4 * Q)\<rfloor>"
    by (simp only: py_int_def if_True)
  also have "\<dots> = (k * P) div (4 * Q)" by (rule floor_divide_of_int_eq)
  finally show ?thesis unfolding fmul_def e using trunc_product [OF assms] by simp
qed

lemma side_sedentary:
  "0 < fl 1.2"
  "\<bar>fl 1.2 - of_int 6 / of_int 5\<bar> \<le> 1 / 2 ^ 52"
  "(of_int 6 / of_int 5 - fl 1.2) * 2 ^ 54 \<le> fl 1.2"
  by code_simp+

lemma side_light:
  "0 < fl 1.375"
  "\<bar>fl 1.375 - of_int 11 / of_int 8\<bar> \<le> 1 / 2 ^ 52"
  "(of_int 11 / of_int 8 - fl 1.375) * 2 ^ 54 \<le> fl 1.375"
  by code_simp+

lemma side_moderate:
  "0 < fl 1.55"
  "\<bar>fl 1.55 - of_int 31 / of_int 20\<bar> \<le> 1 / 2 ^ 52"
  "(of_int 31 / of_int 20 - fl 1.55) * 2 ^ 54 \<le> fl 1.55"
  by code_simp+

lemma side_very:
  "0 < fl 1.725"
  "\<bar>fl 1.725 - of_int 69 / of_int 40\<bar> \<le> 1 / 2 ^ 52"
  "(of_int 69 / of_int 40 - fl 1.725) * 2 ^ 54 \<le> fl 1.725"
  by code_simp+

lemma side_extra:
  "0 < fl 1.9"
  "\<bar>fl 1.9 - of_int 19 / of_int 10\<bar> \<le> 1 / 2 ^ 52"
  "(of_int 19 / of_int 10 - fl 1.9) * 2 ^ 54 \<le> fl 1.9"
  by code_simp+

lemma tdee_exact:
  assumes "0 \<le> k" and "k \<le> 2 ^ 22"
  shows "py_int (fmul (of_int k / 4) (fl 1.2)) = py_int (of_int k / 4 * 1.2)"
    and "py_int (fmul (of_int k / 4) (fl 1.375)) = py_int (of_int k / 4 * 1.375)"
    and "py_int (fmul (of_int k / 4) (fl 1.55)) = py_int (of_int k / 4 * 1.55)"
    and "py_int (fmul (of_int k / 4) (fl 1.725)) = py_int (of_int k / 4 * 1.725)"
    and "py_int (fmul (of_int k / 4) (fl 1.9)) = py_int (of_int k / 4 * 1.9)"
proof -
  have "py_int (fmul (of_int k / 4) (fl 1.2)) = py_int (of_int k / 4 * (of_int 6 / of_int 5))"
    by (rule trunc_product_exact [OF assms _ _ _ _ side_sedentary]) simp_all
  then show "py_int (fmul (of_int k / 4) (fl 1.2)) = py_int (of_int k / 4 * 1.2)"
    by simp
  have "py_int (fmul (of_int k / 4) (fl 1.375)) = py_int (of_int k / 4 * (of_int 11 / of_int 8))"
    by (rule trunc_product_exact [OF assms _ _ _ _ side_light]) simp_all
  then show "py_int (fmul (of_int k / 4) (fl 1.375)) = py_int (of_int k / 4 * 1.375)"
    by simp
  have "py_int (fmul (of_int k / 4) (fl 1.55)) = py_int (of_int k / 4 * (of_int 31 / of_int 20))"
    by (rule trunc_product_exact [OF assms _ _ _ _ side_moderate]) simp_all
  then show "py_int (fmul (of_int k / 4) (fl 1.55)) = py_int (of_int k / 4 * 1.55)"
    by simp
  have "py_int (fmul (of_int k / 4) (fl 1.725)) = py_int (of_int k / 4 * (of_int 69 / of_int 40))"
    by (rule trunc_product_exact [OF assms _ _ _ _ side_very]) simp_all
  then show "py_int (fmul (of_int k / 4) (fl 1.725)) = py_int (of_int k / 4 * 1.725)"
    by simp
  have "py_int (fmul (of_int k / 4) (fl 1.9)) = py_int (of_int k / 4 * (of_int 19 / of_int 10))"
    by (rule trunc_product_exact [OF assms _ _ _ _ side_extra]) simp_all
  then show "py_int (fmul (of_int k / 4) (fl 1.9)) = py_int (of_int k / 4 * 1.9)"
    by simp
qed

text \<open>
  Claim C3. For every BMR value, \<open>tdee\<close> is the truncation toward zero of the float
  product of the BMR and the factor of the activity level, the factors being the floats
  written 1.2, 1.375, 1.55, 1.725 and 1.9; \<open>cal_target\<close> is \<open>tdee\<close> plus the offset of the
  goal, 0, -250, -500, +250 or +500, an integer that \<open>int\<close> leaves as it is. For a BMR
  that is a multiple of a quarter between 0 and \<open>2^20\<close>, as \<open>bmr_mifflin\<close> returns for
  the inputs of the form, the truncated float product is the truncation of the exact
  product of the BMR and the decimal factor.
\<close>

theorem tdee_and_calorie_target:
  "tdee (assign_tdee g) = py_int (fmul (bmr g) (activity_factor (activity g))) \<and>
   of_int (py_int x) = sgn x * of_int \<lfloor>\<bar>x\<bar>\<rfloor> \<and>
   activity_factor ''Sedentary (little or no exercise)'' = fl 1.2 \<and>
   activity_factor ''Lightly active (light exercise/sports 1-3 days/week)'' = 1.375 \<and>
   activity_factor ''Moderately active (moderate exercise/sports 3-5 days/week)'' = fl 1.55 \<and>
   activity_factor ''Very active (hard exercise/sports 6-7 days/week)'' = fl 1.725 \<and>
   activity_factor ''Extra active (very hard exercise or physical job)'' = fl 1.9 \<and>
   (0 \<le> k \<and> k \<le> 2 ^ 22 \<longrightarrow>
      py_int (fmul (of_int k / 4) (activity_factor ''Sedentary (little or no exercise)''))
        = py_int (of_int k / 4 * 1.2) \<and>
      py_int (fmul (of_int k / 4)
          (activity_factor ''Lightly active (light exercise/sports 1-3 days/week)''))
        = py_int (of_int k / 4 * 1.375) \<and>
      py_int (fmul (of_int k / 4)
          (activity_factor ''Moderately active (moderate exercise/sports 3-5 days/week)''))
        = py_int (of_int k / 4 * 1.55) \<and>
      py_int (fmul (of_int k / 4)
          (activity_factor ''Very active (hard exercise/sports 6-7 days/week)''))
        = py_int (of_int k / 4 * 1.725) \<and>
      py_int (fmul (of_int k / 4)
          (activity_factor ''Extra active (very hard exercise or physical job)''))
        = py_int (of_int k / 4 * 1.9)) \<and>
   cal_target (assign_cal_target g) = adjust_calorie_for_goal (tdee g) (goal g) \<and>
   adjust_calorie_for_goal t ''Maintain weight'' = t \<and>
   adjust_calorie_for_goal t ''Mild weight loss'' = t - 250 \<and>
   adjust_calorie_for_goal t ''Weight loss'' = t - 500 \<and>
   adjust_calorie_for_goal t ''Mild weight gain'' = t + 250 \<and>
   adjust_calorie_for_goal t ''Weight gain'' = t + 500 \<and>
   py_int (fmul 1642.5 (activity_factor ''Sedentary (little or no exercise)'')) = 1971 \<and>
   adjust_calorie_for_goal 1971 ''Mild weight loss'' = 1721"
proof -
  have a: "tdee (assign_tdee g) = py_int (fmul (bmr g) (activity_factor (activity g)))"
    by (simp add: assign_tdee_def)
  have b: "cal_target (assign_cal_target g) = adjust_calorie_for_goal (tdee g) (goal g)"
    by (simp add: assign_cal_target_def)
  have c: "py_int (fmul 1642.5 (activity_factor ''Sedentary (little or no exercise)'')) = 1971"
    unfolding activity_factor_table by code_simp
  have d: "of_int (py_int x) = sgn x * of_int \<lfloor>\<bar>x\<bar>\<rfloor>" by (rule py_int_sgn)
  have e: "adjust_calorie_for_goal 1971 ''Mild weight loss'' = 1721"
    by (simp add: goal_offset_table)
  have l: "activity_factor ''Lightly active (light exercise/sports 1-3 days/week)'' = 1.375"
    unfolding activity_factor_table by (rule fl_11_8)
  have ex: "0 \<le> k \<and> k \<le> 2 ^ 22 \<longrightarrow>
      py_int (fmul (of_int k / 4) (activity_factor ''Sedentary (little or no exercise)''))
        = py_int (of_int k / 4 * 1.2) \<and>
      py_int (fmul (of_int k / 4)
          (activity_factor ''Lightly active (light exercise/sports 1-3 days/week)''))
        = py_int (of_int k / 4 * 1.375) \<and>
      py_int (fmul (of_int k / 4)
          (activity_factor ''Moderately active (moderate exercise/sports 3-5 days/week)''))
        = py_int (of_int k / 4 * 1.55) \<and>
      py_int (fmul (of_int k / 4)
          (activity_factor ''Very active (hard exercise/sports 6-7 days/week)''))
        = py_int (of_int k / 4 * 1.725) \<and>
      py_int (fmul (of_int k / 4)
          (activity_factor ''Extra active (very hard exercise or physical job)''))
        = py_int (of_int k / 4 * 1.9)"
    unfolding activity_factor_table using tdee_exact [of k] by blast
  show ?thesis
    by (intro conjI a b c d e l ex activity_factor_table goal_offset_table)
qed

theorem tdee_and_calorie_target_witness:
  "(0 :: int) \<le> 6570 \<and> (6570 :: int) \<le> 2 ^ 22 \<and>
   py_int (fmul (of_int 6570 / 4) (activity_factor ''Sedentary (little or no exercise)''))
     = 1971 \<and>
   py_int (fmul (of_int 6570 / 4)
       (activity_factor ''Extra active (very hard exercise or physical job)'')) = 3120"
proof -
  have k: "(0 :: int) \<le> 6570 \<and> (6570 :: int) \<le> 2 ^ 22" by simp
  have v: "py_int (of_int 6570 / 4 * 1.2) = 1971" "py_int (of_int 6570 / 4 * 1.9) = 3120"
    by code_simp+
  from tdee_and_calorie_target [of unset_globals 0 6570 0] k
  have "py_int (fmul (of_int 6570 / 4) (activity_factor ''Sedentary (little or no exercise)''))
          = py_int (of_int 6570 / 4 * 1.2)"
    and "py_int (fmul (of_int 6570 / 4)
          (activity_factor ''Extra active (very hard exercise or physical job)''))
          = py_int (of_int 6570 / 4 * 1.9)"
    by blast+
  then show ?thesis using k v by simp
qed

section \<open>The meal plan\<close>


text \<open>
  The products are float products: at a calorie target of 1400 the lunch portion is 489,
  one less than the truncation of the exact product 490, since the float written 0.35 lies
  below 0.35.
\<close>

lemma lunch_portion_1400:
  "py_int (fmul (float_of_int 1400) (fl 0.35)) = 489 \<and> py_int (1400 * 0.35) = 490"
  by code_simp

section \<open>Values outside the tables\<close>

text \<open>
  Claim C6. An activity level that is not one of the five keys gets the factor written
  1.2, and a goal that is not one of the five keys gets the offset 0: the lookups have
  defaults and cannot fail.
\<close>

theorem unmapped_defaults:
  "(level \<notin> set activity_options \<longrightarrow>
      activity_factor level = fl 1.2 \<and>
      tdee (assign_tdee (g\<lparr>activity := level\<rparr>)) = py_int (fmul (bmr g) (fl 1.2))) \<and>
   (gl \<notin> set goal_options \<longrightarrow>
      adjust_calorie_for_goal t gl = t \<and>
      cal_target (assign_cal_target (g\<lparr>goal := gl\<rparr>)) = tdee g)"
  by (simp add: activity_factor_def activity_mapping_def activity_options_def
      adjust_calorie_for_goal_def goal_mapping_def goal_options_def
      assign_tdee_def assign_cal_target_def)

theorem unmapped_defaults_witness:
  "''Couch'' \<notin> set activity_options \<and> activity_factor ''Couch'' = fl 1.2 \<and>
   tdee (assign_tdee (unset_globals\<lparr>bmr := 1642.5, activity := ''Couch''\<rparr>)) = 1971 \<and>
   ''Bulk'' \<notin> set goal_options \<and> adjust_calorie_for_goal 1971 ''Bulk'' = 1971 \<and>
   cal_target (assign_cal_target (unset_globals\<lparr>tdee := 1971, goal := ''Bulk''\<rparr>)) = 1971"
proof -
  have c: "py_int (fmul 1642.5 (fl 1.2)) = 1971" by code_simp
  have a: "''Couch'' \<notin> set activity_options" by (simp add: activity_options_def)
  have b: "''Bulk'' \<notin> set goal_options" by (simp add: goal_options_def)
  show ?thesis
    using unmapped_defaults [of "''Couch''" "unset_globals\<lparr>bmr := 1642.5\<rparr>" "''Bulk''" 1971
        ] unmapped_defaults [of "''Couch''" "unset_globals\<lparr>tdee := 1971\<rparr>" "''Bulk''" 1971] a b c
    by simp
qed

section \<open>The main logic\<close>

lemma main_logic_Inr:
  assumes "calculate_bmi (weight_kg g) (height_cm g) = Inr v"
  shows "main_logic g =
           Inr (assign_df_plan (assign_report (assign_plan (assign_cal_target
                  (assign_tdee (assign_bmr (assign_category (g\<lparr>bmi := v\<rparr>))))))))"
  using assms by (simp add: main_logic_def assign_bmi_def)

lemma main_logic_Inl:
  assumes "calculate_bmi (weight_kg g) (height_cm g) = Inl e"
  shows "main_logic g = Inl e"
  using assms by (simp add: main_logic_def assign_bmi_def)

lemma calculate_bmi_cases:
  "calculate_bmi w h =
     (if h = 0 then Inl ZeroDivisionError
      else Inr (fl (float_of_int w / fpow2 (fl (float_of_int h / 100)))))"
  by (simp add: calculate_bmi_def fdiv_def fpow2_def fl_eq_0_iff float_of_int_eq_0_iff)

lemmas assign_defs =
  assign_category_def assign_bmr_def assign_tdee_def assign_cal_target_def assign_plan_def
  assign_report_def assign_df_plan_def

text \<open>
  Claim C9. A run of the script binds the six inputs and then assigns every variable of
  the block before reading it, so the outcome of a submission (the report text, the rows
  of the table, or the error) is a function of the six inputs alone: whatever an earlier
  run left in the variables, the same inputs give the same result. No statement reads a
  clock or a random source.
\<close>

theorem submit_form_deterministic:
  "submit_form g1 a gd h w act gl = submit_form g2 a gd h w act gl"
proof (cases "h = 0")
  case True
  then show ?thesis
    by (simp add: submit_form_def main_logic_Inl calculate_bmi_cases)
next
  case False
  define v where "v = fl (float_of_int w / fpow2 (fl (float_of_int h / 100)))"
  have "calculate_bmi w h = Inr v" using False by (simp add: calculate_bmi_cases v_def)
  then show ?thesis
    by (cases g1; cases g2) (simp add: submit_form_def main_logic_Inr assign_defs Let_def)
qed


lemma submit_form_Inr:
  assumes "h \<noteq> 0"
  shows "submit_form g a gd h w act gl =
           Inr (assign_df_plan (assign_report (assign_plan (assign_cal_target
                  (assign_tdee (assign_bmr (assign_category
                     (g\<lparr>age := a, gender := gd, height_cm := h, weight_kg := w,
                         activity := act, goal := gl,
                         bmi := fl (float_of_int w / fpow2 (fl (float_of_int h / 100)))\<rparr>))))))))"
  using assms by (simp add: submit_form_def main_logic_Inr calculate_bmi_cases)




section \<open>A negative calorie target\<close>

text \<open>
  Claim C10. The inputs Female, 120 years, 100 cm, 30 kg, Sedentary, Weight loss are all
  inside the ranges of the form; the run gives a TDEE of 196 and a calorie target of -304,
  and the negative target goes on into the four portions and the texts of the meal plan
  and of the report. No stage bounds the target or a portion below by zero.
\<close>

theorem negative_calorie_target:
  "form_ranges 120 ''Female'' 100 30 ''Sedentary (little or no exercise)'' ''Weight loss'' \<and>
   (\<exists>g'. submit_form g 120 ''Female'' 100 30
            ''Sedentary (little or no exercise)'' ''Weight loss'' = Inr g' \<and>
         bmi g' = 30 \<and> category g' = ''Obese'' \<and> bmr g' = 164 \<and> tdee g' = 196 \<and>
         cal_target g' = - 304 \<and>
         plan g' =
           \<lparr>notes = ''Aim for modest calorie deficit, high fiber, lean proteins. Consult a professional for personalised plan.'',
            breakfast = ''Oatmeal with berries (~-226 kcal)'',
            lunch = ''Large salad with lean protein (~-256 kcal)'',
            snack = ''Veg sticks or a small fruit (~-80 kcal)'',
            dinner = ''Light vegetable soup + lean protein (~-191 kcal)''\<rparr> \<and>
         report g' =
           ''BMI Report\<newline>Age: 120\<newline>Gender: Female\<newline>Height (cm): 100\<newline>Weight (kg): 30\<newline>\<newline>BMI: 30.00 (Obese)\<newline>BMR: 164 kcal/day\<newline>TDEE: 196 kcal/day\<newline>Calorie target: -304 kcal/day\<newline>\<newline>Sample Meal Plan:\<newline>Breakfast: Oatmeal with berries (~-226 kcal)\<newline>Lunch: Large salad with lean protein (~-256 kcal)\<newline>Snack: Veg sticks or a small fruit (~-80 kcal)\<newline>Dinner: Light vegetable soup + lean protein (~-191 kcal)\<newline>'')"
proof -
  have r: "form_ranges 120 ''Female'' 100 30 ''Sedentary (little or no exercise)''
             ''Weight loss''"
    by (simp add: form_ranges_def gender_options_def activity_options_def goal_options_def)
  have b: "fl (float_of_int 30 / fpow2 (fl (float_of_int 100 / 100))) = 30" by code_simp
  have c: "bmi_category 30 = ''Obese''" by (simp add: bmi_category_def)
  have m: "bmr_mifflin 30 100 120 ''Female'' = 164" by code_simp
  have t: "py_int (fmul 164 (activity_factor ''Sedentary (little or no exercise)'')) = 196"
    by code_simp
  have a: "adjust_calorie_for_goal 196 ''Weight loss'' = - 304"
    by (simp add: adjust_calorie_for_goal_def goal_mapping_def)
  have p: "sample_meal_plan (- 304) ''Obese'' =
           \<lparr>notes = ''Aim for modest calorie deficit, high fiber, lean proteins. Consult a professional for personalised plan.'',
            breakfast = ''Oatmeal with berries (~-226 kcal)'',
            lunch = ''Large salad with lean protein (~-256 kcal)'',
            snack = ''Veg sticks or a small fruit (~-80 kcal)'',
            dinner = ''Light vegetable soup + lean protein (~-191 kcal)''\<rparr>"
    by code_simp
  have f: "format_2f 30 = ''30.00''" by code_simp
  have s: "str_int 120 = ''120''" "str_int 100 = ''100''" "str_int 30 = ''30''"
    "str_int (py_int 164) = ''164''" "str_int 196 = ''196''" "str_int (- 304) = ''-304''"
    by code_simp+
  show ?thesis
    using r by (simp add: submit_form_Inr assign_defs Let_def b c m t a p f s)
qed

end
